theory Spec2Isabelle
  imports Main
begin

section \<open>The runtime loader of rive-wasm: data model\<close>

text \<open>
  The development embeds \<^verbatim>\<open>js/src/runtime-loader/RuntimeLoader.ts\<close>. The class
  \<^verbatim>\<open>RuntimeLoader\<close> is never instantiated: its static fields are the process-wide
  state, modelled as the record \<open>state\<close> that every operation takes and returns.

  The loaded runtime (\<^verbatim>\<open>rc.RiveCanvas\<close>) is an opaque object; a \<open>handle\<close> names one
  such object, and two handles are equal exactly when they are the same reference.
  A field or argument that may hold \<^verbatim>\<open>undefined\<close> is a \<open>handle option\<close>; an object is
  always truthy, so \<^verbatim>\<open>!RuntimeLoader.runtime\<close> is \<open>runtime s = None\<close>.
\<close>

type_synonym handle = nat

text \<open>
  A \<^verbatim>\<open>RuntimeCallback\<close> is an arbitrary closure \<^verbatim>\<open>(rive) => void\<close>. What matters to
  the loader is what the closure does to the loader while it runs: it may call
  \<^verbatim>\<open>getInstance\<close> again with another closure, call \<^verbatim>\<open>setWasmUrl\<close>, or throw.
  A caller's closure is a label (its identity) and the script of those actions, in
  program order; \<^verbatim>\<open>loadRuntime\<close> is private and not available to it.
\<close>

datatype callback = Callback nat "action list"
  and action = GetInstance callback | SetWasmUrl string | Throw

text \<open>
  The queue holds callers' closures and the closures
  \<^verbatim>\<open>(rive) => resolve(rive)\<close> that \<^verbatim>\<open>awaitInstance\<close> creates; \<open>PromiseResolve p\<close>
  is the one that closes over the \<^verbatim>\<open>resolve\<close> function of promise \<open>p\<close>.
\<close>

datatype RuntimeCallback = UserCallback callback | PromiseResolve nat

datatype promise_state = Pending | Fulfilled "handle option" | Rejected

text \<open>
  What the loader does to the outside world is recorded, in order, in a trace:
  \<^item> \<open>Init u\<close>: the initialization entry point \<^verbatim>\<open>rc.default\<close> is called, and
    \<^verbatim>\<open>locateFile()\<close> evaluated at the moment of the call yields \<open>u\<close>;
  \<^item> \<open>Queued c\<close>: \<^verbatim>\<open>callBackQueue.push(c)\<close>;
  \<^item> \<open>Invoked c v\<close>: the closure \<open>c\<close> is called with the argument \<open>v\<close>;
  \<^item> \<open>Warn u\<close>: \<^verbatim>\<open>console.warn\<close> of the failed load from \<open>u\<close>;
  \<^item> \<open>Error\<close>: \<^verbatim>\<open>console.error\<close> of the terminal failure.
\<close>

datatype event =
    Init string
  | Queued RuntimeCallback
  | Invoked RuntimeCallback "handle option"
  | Warn string
  | Error

text \<open>
  \<^verbatim>\<open>package.json\<close> is imported by the loader and supplies the two strings from which
  both default URLs are built. It is a parameter of the model.
\<close>

record package =
  name :: string
  version :: string

text \<open>
  The four static fields of the class that the code uses (the second handle field
  \<^verbatim>\<open>rive\<close> is declared and never read or written), and four fields for the
  environment: \<open>pending\<close> counts the promises returned by \<^verbatim>\<open>rc.default\<close> that
  have not settled yet (the loads in flight), \<open>failing\<close> counts the promise chains
  whose \<^verbatim>\<open>then\<close> handler has thrown and whose \<^verbatim>\<open>catch\<close> handler has not run
  yet, \<open>promises\<close> holds the state of every promise \<^verbatim>\<open>awaitInstance\<close> has
  created, in creation order, and \<open>trace\<close> is the trace.
\<close>

record state =
  runtime :: "handle option"
  isLoading :: bool
  callBackQueue :: "RuntimeCallback list"
  wasmURL :: string
  pending :: nat
  failing :: nat
  promises :: "promise_state list"
  trace :: "event list"

definition primaryUrl :: "package \<Rightarrow> string" where
  "primaryUrl pkg = ''https://unpkg.com/'' @ name pkg @ ''@'' @ version pkg @ ''/rive.wasm''"

definition backupJsdelivrUrl :: "package \<Rightarrow> string" where
  "backupJsdelivrUrl pkg =
     ''https://cdn.jsdelivr.net/npm/'' @ name pkg @ ''@'' @ version pkg @ ''/rive_fallback.wasm''"

definition initial :: "package \<Rightarrow> state" where
  "initial pkg = \<lparr> runtime = None, isLoading = False, callBackQueue = [],
     wasmURL = primaryUrl pkg, pending = 0, failing = 0, promises = [], trace = [] \<rparr>"

text \<open>
  A character of the model is a code point below 256 (the Latin-1 range), so the
  strings of the model are the strings all of whose code points lie there; URLs
  do. On these \<^verbatim>\<open>String.prototype.toLowerCase\<close> works letter by letter: the
  upper-case letters are \<open>A\<close> to \<open>Z\<close> (codes 65 to 90) and the accented capitals
  at codes 192 to 214 and 216 to 222, each of which moves to the letter 32 places
  further; every other code point, the multiplication sign at 215 and the
  lower-case letters at 223 and 255 among them, stays.
\<close>

definition lowerChar :: "char \<Rightarrow> char" where
  "lowerChar c =
     (let n = (of_char c :: nat)
      in if (65 \<le> n \<and> n \<le> 90) \<or> (192 \<le> n \<and> n \<le> 214) \<or> (216 \<le> n \<and> n \<le> 222)
         then char_of (n + 32) else c)"

definition toLowerCase :: "string \<Rightarrow> string" where
  "toLowerCase u = map lowerChar u"

section \<open>Operations\<close>

definition log :: "event \<Rightarrow> state \<Rightarrow> state" where
  "log e s = s\<lparr>trace := trace s @ [e]\<rparr>"

text \<open>
  The closure \<^verbatim>\<open>locateFile: () => RuntimeLoader.wasmURL\<close> reads the field when it is
  called, in whatever state the loader then is.
\<close>

definition locateFile :: "state \<Rightarrow> string" where
  "locateFile s = wasmURL s"

definition setWasmUrl :: "string \<Rightarrow> state \<Rightarrow> state" where
  "setWasmUrl url s = s\<lparr>wasmURL := url\<rparr>"

text \<open>
  The synchronous part of \<^verbatim>\<open>loadRuntime\<close>: the call of \<^verbatim>\<open>rc.default\<close>, which puts
  one more load in flight. The entry point belongs to the runtime module; all that
  is assumed of it is that it returns a promise, which is later fulfilled with a
  handle or rejected. The two continuations attached to that promise are
  \<open>thenHandler\<close> and \<open>catchHandler\<close> below; they run when the promise settles.
\<close>

definition loadRuntime :: "state \<Rightarrow> state" where
  "loadRuntime s = log (Init (locateFile s)) (s\<lparr>pending := pending s + 1\<rparr>)"

text \<open>
  Calling the \<^verbatim>\<open>resolve\<close> function of a promise settles it if it is still pending and
  does nothing otherwise.
\<close>

definition resolvePromise :: "nat \<Rightarrow> handle option \<Rightarrow> state \<Rightarrow> state" where
  "resolvePromise p v s =
     (if p < length (promises s) \<and> promises s ! p = Pending
      then s\<lparr>promises := (promises s)[p := Fulfilled v]\<rparr> else s)"

definition rejectPromise :: "nat \<Rightarrow> state \<Rightarrow> state" where
  "rejectPromise p s =
     (if p < length (promises s) \<and> promises s ! p = Pending
      then s\<lparr>promises := (promises s)[p := Rejected]\<rparr> else s)"

fun callback_size :: "RuntimeCallback \<Rightarrow> nat" where
  "callback_size (UserCallback cb) = size cb"
| "callback_size (PromiseResolve p) = 0"

text \<open>
  \<^verbatim>\<open>getInstance\<close>, the call of a closure, and the run of a closure's script. Each
  returns the new state and a flag that is \<open>True\<close> when an exception left the call;
  an exception ends the script of the closure that raised it and of every closure
  that was calling it.
\<close>

function getInstance :: "RuntimeCallback \<Rightarrow> state \<Rightarrow> bool \<times> state"
  and invoke :: "RuntimeCallback \<Rightarrow> handle option \<Rightarrow> state \<Rightarrow> bool \<times> state"
  and run_body :: "action list \<Rightarrow> state \<Rightarrow> bool \<times> state"
where
  "getInstance callback s =
     (let s1 = (if \<not> isLoading s then loadRuntime (s\<lparr>isLoading := True\<rparr>) else s)
      in if runtime s1 = None
         then (False, log (Queued callback) (s1\<lparr>callBackQueue := callBackQueue s1 @ [callback]\<rparr>))
         else invoke callback (runtime s1) s1)"
| "invoke (PromiseResolve p) v s =
     (False, resolvePromise p v (log (Invoked (PromiseResolve p) v) s))"
| "invoke (UserCallback (Callback n body)) v s =
     run_body body (log (Invoked (UserCallback (Callback n body)) v) s)"
| "run_body [] s = (False, s)"
| "run_body (Throw # rest) s = (True, s)"
| "run_body (SetWasmUrl u # rest) s = run_body rest (setWasmUrl u s)"
| "run_body (GetInstance cb # rest) s =
     (case getInstance (UserCallback cb) s of
        (True, s') \<Rightarrow> (True, s')
      | (False, s') \<Rightarrow> run_body rest s')"
  by pat_completeness auto
termination
  by (relation "measure (\<lambda>x. case x of
         Inl (c, s) \<Rightarrow> 2 * callback_size c + 1
       | Inr (Inl (c, v, s)) \<Rightarrow> 2 * callback_size c
       | Inr (Inr (acts, s)) \<Rightarrow> 2 * size_list size acts)") auto

text \<open>
  The drain loop of the success continuation,
  \<^verbatim>\<open>while (callBackQueue.length > 0) { callBackQueue.shift()?.(runtime) }\<close>,
  re-reads the queue and the handle field at every iteration, so whatever a closure
  does to the queue is seen by the loop. It ends when the queue is empty, or when a
  closure throws: the exception leaves the loop with the rest of the queue in place.
  The loop ends in every state, because each closure can register only the finitely
  many closures of its script; \<open>queue_weight\<close> bounds the work left.
\<close>

definition queue_weight :: "RuntimeCallback list \<Rightarrow> nat" where
  "queue_weight q = sum_list (map (\<lambda>c. Suc (callback_size c)) q)"

function drain :: "state \<Rightarrow> bool \<times> state" where
  "drain s =
     (case callBackQueue s of
        [] \<Rightarrow> (False, s)
      | c # rest \<Rightarrow>
          (case invoke c (runtime s) (s\<lparr>callBackQueue := rest\<rparr>) of
             (True, s') \<Rightarrow> (True, s')
           | (False, s') \<Rightarrow> drain s'))"
  by pat_completeness auto
termination
proof (relation "measure (\<lambda>s. queue_weight (callBackQueue s))")
  show "wf (measure (\<lambda>s. queue_weight (callBackQueue s)))" by simp
next
  fix s :: state and c rest x y
  assume q: "callBackQueue s = c # rest"
    and r: "(x, y) = invoke c (runtime s) (s\<lparr>callBackQueue := rest\<rparr>)"
  have bound:
    "\<And>c s. queue_weight (callBackQueue (snd (getInstance c s)))
       \<le> queue_weight (callBackQueue s) + Suc (callback_size c)"
    "\<And>c v s. queue_weight (callBackQueue (snd (invoke c v s)))
       \<le> queue_weight (callBackQueue s) + callback_size c"
    "\<And>acts s. queue_weight (callBackQueue (snd (run_body acts s)))
       \<le> queue_weight (callBackQueue s) + size_list size acts"
  proof -
    fix c :: RuntimeCallback and v :: "handle option" and s :: state and acts :: "action list"
    have "queue_weight (callBackQueue (snd (getInstance c s)))
         \<le> queue_weight (callBackQueue s) + Suc (callback_size c)"
      and "queue_weight (callBackQueue (snd (invoke c v s)))
         \<le> queue_weight (callBackQueue s) + callback_size c"
      and "queue_weight (callBackQueue (snd (run_body acts s)))
         \<le> queue_weight (callBackQueue s) + size_list size acts"
    proof (induction c s and c v s and acts s rule: getInstance_invoke_run_body.induct)
      case (1 callback s)
      then show ?case
        by (auto simp: Let_def queue_weight_def loadRuntime_def log_def intro: le_SucI
            simp del: invoke.simps)
    next
      case (2 p v s)
      then show ?case by (simp add: resolvePromise_def log_def)
    next
      case (3 n body v s)
      then show ?case by (simp add: log_def)
    next
      case (6 u rest s)
      then show ?case by (simp add: setWasmUrl_def)
    next
      case (7 cb rest s)
      obtain t s' where g: "getInstance (UserCallback cb) s = (t, s')"
        by (cases "getInstance (UserCallback cb) s")
      show ?case
      proof (cases t)
        case True
        with g "7.IH"(1) show ?thesis by (simp del: getInstance.simps)
      next
        case False
        with g "7.IH"(1) "7.IH"(2) [of t s'] show ?thesis by (simp del: getInstance.simps)
      qed
    qed simp_all
    then show "queue_weight (callBackQueue (snd (getInstance c s)))
         \<le> queue_weight (callBackQueue s) + Suc (callback_size c)"
      and "queue_weight (callBackQueue (snd (invoke c v s)))
         \<le> queue_weight (callBackQueue s) + callback_size c"
      and "queue_weight (callBackQueue (snd (run_body acts s)))
         \<le> queue_weight (callBackQueue s) + size_list size acts"
      by simp_all
  qed
  have "queue_weight (callBackQueue y) \<le> queue_weight rest + callback_size c"
    using bound(2) [of c "runtime s" "s\<lparr>callBackQueue := rest\<rparr>"] r [symmetric] by simp
  with q show "(y, s) \<in> measure (\<lambda>s. queue_weight (callBackQueue s))"
    by (simp add: queue_weight_def)
qed

text \<open>
  The continuations of \<^verbatim>\<open>rc.default(...).then(...).catch(...)\<close>. The handler given
  to \<^verbatim>\<open>then\<close> stores the handle and drains the queue. The handler given to
  \<^verbatim>\<open>catch\<close> is chained after \<^verbatim>\<open>then\<close>, so it runs when the promise of
  \<^verbatim>\<open>rc.default\<close> rejects and also when the \<^verbatim>\<open>then\<close> handler throws.
\<close>

definition thenHandler :: "handle \<Rightarrow> state \<Rightarrow> bool \<times> state" where
  "thenHandler rive s = drain (s\<lparr>runtime := Some rive\<rparr>)"

definition catchHandler :: "package \<Rightarrow> state \<Rightarrow> state" where
  "catchHandler pkg s =
     (if toLowerCase (wasmURL s) \<noteq> backupJsdelivrUrl pkg
      then loadRuntime (setWasmUrl (backupJsdelivrUrl pkg) (log (Warn (wasmURL s)) s))
      else log Error s)"

text \<open>
  How a load in flight ends. When the promise of \<^verbatim>\<open>rc.default\<close> is fulfilled, the
  \<^verbatim>\<open>then\<close> handler runs; if it throws, the chain is left failing, and its
  \<^verbatim>\<open>catch\<close> handler runs in a later job, after whatever client code was scheduled
  before. When the promise of \<^verbatim>\<open>rc.default\<close> is rejected, no code of the loader
  runs before the \<^verbatim>\<open>catch\<close> handler does, so the rejection and the handler are
  one event. An event that needs a load in flight, or a failing chain, leaves the
  state as it is when there is none.
\<close>

definition loadSucceeds :: "handle \<Rightarrow> state \<Rightarrow> state" where
  "loadSucceeds rive s =
     (if pending s = 0 then s
      else case thenHandler rive (s\<lparr>pending := pending s - 1\<rparr>) of
             (True, s') \<Rightarrow> s'\<lparr>failing := failing s' + 1\<rparr>
           | (False, s') \<Rightarrow> s')"

definition catchRuns :: "package \<Rightarrow> state \<Rightarrow> state" where
  "catchRuns pkg s =
     (if failing s = 0 then s else catchHandler pkg (s\<lparr>failing := failing s - 1\<rparr>))"

definition loadFails :: "package \<Rightarrow> state \<Rightarrow> state" where
  "loadFails pkg s =
     (if pending s = 0 then s else catchHandler pkg (s\<lparr>pending := pending s - 1\<rparr>))"

text \<open>
  \<^verbatim>\<open>awaitInstance\<close> creates a promise and runs its executor at once; the executor
  calls \<^verbatim>\<open>getInstance\<close> with the closure that resolves the promise. An exception
  leaving the executor would reject the promise. The result is the new promise.
\<close>

definition awaitInstance :: "state \<Rightarrow> nat \<times> state" where
  "awaitInstance s =
     (let p = length (promises s);
          s1 = s\<lparr>promises := promises s @ [Pending]\<rparr>
      in case getInstance (PromiseResolve p) s1 of
           (True, s2) \<Rightarrow> (p, rejectPromise p s2)
         | (False, s2) \<Rightarrow> (p, s2))"

text \<open>
  A run of the program is a sequence of events: calls of the three public methods
  by client code, the settling of loads in flight, and the \<^verbatim>\<open>catch\<close> handler of a
  failing chain. An exception that leaves a
  call of \<^verbatim>\<open>getInstance\<close> goes to the caller; the loader's state is what it was
  when the exception was raised.
\<close>

datatype op =
    CallGetInstance callback
  | CallAwaitInstance
  | CallSetWasmUrl string
  | LoadSucceeds handle
  | CatchRuns
  | LoadFails

fun step :: "package \<Rightarrow> op \<Rightarrow> state \<Rightarrow> state" where
  "step pkg (CallGetInstance cb) s = snd (getInstance (UserCallback cb) s)"
| "step pkg CallAwaitInstance s = snd (awaitInstance s)"
| "step pkg (CallSetWasmUrl u) s = setWasmUrl u s"
| "step pkg (LoadSucceeds rive) s = loadSucceeds rive s"
| "step pkg CatchRuns s = catchRuns pkg s"
| "step pkg LoadFails s = loadFails pkg s"

fun run :: "package \<Rightarrow> op list \<Rightarrow> state \<Rightarrow> state" where
  "run pkg [] s = s"
| "run pkg (x # xs) s = run pkg xs (step pkg x s)"

section \<open>Observing a run\<close>

text \<open>Projections of the trace.\<close>

fun init_of :: "event \<Rightarrow> string list" where
  "init_of (Init u) = [u]"
| "init_of _ = []"

fun queued_of :: "event \<Rightarrow> RuntimeCallback list" where
  "queued_of (Queued c) = [c]"
| "queued_of _ = []"

fun invoked_of :: "event \<Rightarrow> (RuntimeCallback \<times> handle option) list" where
  "invoked_of (Invoked c v) = [(c, v)]"
| "invoked_of _ = []"

definition inits :: "event list \<Rightarrow> string list" where
  "inits tr = concat (map init_of tr)"

definition pushes :: "event list \<Rightarrow> RuntimeCallback list" where
  "pushes tr = concat (map queued_of tr)"

definition calls :: "event list \<Rightarrow> (RuntimeCallback \<times> handle option) list" where
  "calls tr = concat (map invoked_of tr)"

text \<open>
  What a script does when it runs while the handle is stored: \<open>nothrow\<close> tells
  whether it returns normally, and \<open>fires\<close> lists the closures that get called
  along the way, in the order of the calls (a closure registered by the script is
  called inside the registering call, before the script goes on). \<open>returns\<close> and
  \<open>fired\<close> are the same for a closure of the queue (the closure itself is the
  first one called), \<open>drained\<close> and \<open>undrained\<close> for a whole queue handled front
  to back until a closure throws.
\<close>

fun nothrow :: "action list \<Rightarrow> bool" where
  "nothrow [] = True"
| "nothrow (Throw # rest) = False"
| "nothrow (SetWasmUrl u # rest) = nothrow rest"
| "nothrow (GetInstance (Callback n body) # rest) = (nothrow body \<and> nothrow rest)"

fun fires :: "action list \<Rightarrow> callback list" where
  "fires [] = []"
| "fires (Throw # rest) = []"
| "fires (SetWasmUrl u # rest) = fires rest"
| "fires (GetInstance (Callback n body) # rest) =
     Callback n body # fires body @ (if nothrow body then fires rest else [])"

fun returns :: "RuntimeCallback \<Rightarrow> bool" where
  "returns (UserCallback (Callback n body)) = nothrow body"
| "returns (PromiseResolve p) = True"

fun fired :: "RuntimeCallback \<Rightarrow> RuntimeCallback list" where
  "fired (UserCallback (Callback n body)) =
     UserCallback (Callback n body) # map UserCallback (fires body)"
| "fired (PromiseResolve p) = [PromiseResolve p]"

fun drained :: "RuntimeCallback list \<Rightarrow> RuntimeCallback list" where
  "drained [] = []"
| "drained (c # rest) = fired c @ (if returns c then drained rest else [])"

fun undrained :: "RuntimeCallback list \<Rightarrow> RuntimeCallback list" where
  "undrained [] = []"
| "undrained (c # rest) = (if returns c then undrained rest else rest)"

definition with_handle :: "handle \<Rightarrow> RuntimeCallback list \<Rightarrow> (RuntimeCallback \<times> handle option) list" where
  "with_handle h cs = map (\<lambda>c. (c, Some h)) cs"

text \<open>
  Bookkeeping for the promises of \<^verbatim>\<open>awaitInstance\<close>. \<open>answers p tr\<close> lists the
  arguments with which the resolving closure of promise \<open>p\<close> has been called in
  the trace. A promise is \<open>tracked\<close> when it is either pending, with its closure
  queued exactly once and not called yet, or fulfilled with a handle, with its
  closure called exactly once, with that handle, and no longer queued. Every
  reachable state tracks every promise, and as long as no handle is stored it has
  called no closure at all and has no failing chain.
\<close>

fun answer_of :: "nat \<Rightarrow> event \<Rightarrow> handle option list" where
  "answer_of p (Invoked (PromiseResolve q) v) = (if q = p then [v] else [])"
| "answer_of p _ = []"

definition answers :: "nat \<Rightarrow> event list \<Rightarrow> handle option list" where
  "answers p tr = concat (map (answer_of p) tr)"



text \<open>A package description used for the concrete runs below.\<close>

definition example_pkg :: package where
  "example_pkg = \<lparr> name = ''@rive-app/canvas'', version = ''2.7.0'' \<rparr>"

text \<open>
  A package description whose version carries a pre-release tag in upper case, as
  the version grammar of packages allows.
\<close>

definition candidate_pkg :: package where
  "candidate_pkg = \<lparr> name = ''@rive-app/canvas'', version = ''2.7.0-RC1'' \<rparr>"

section \<open>Basic facts about the operations\<close>

declare getInstance.simps [simp del]

declare drain.simps [simp del]

subsection \<open>Fields and projections\<close>

lemma log_fields [simp]:
  "runtime (log e s) = runtime s"
  "isLoading (log e s) = isLoading s"
  "callBackQueue (log e s) = callBackQueue s"
  "wasmURL (log e s) = wasmURL s"
  "pending (log e s) = pending s"
  "failing (log e s) = failing s"
  "promises (log e s) = promises s"
  "trace (log e s) = trace s @ [e]"
  by (simp_all add: log_def)

lemma setWasmUrl_fields [simp]:
  "runtime (setWasmUrl u s) = runtime s"
  "isLoading (setWasmUrl u s) = isLoading s"
  "callBackQueue (setWasmUrl u s) = callBackQueue s"
  "wasmURL (setWasmUrl u s) = u"
  "pending (setWasmUrl u s) = pending s"
  "failing (setWasmUrl u s) = failing s"
  "promises (setWasmUrl u s) = promises s"
  "trace (setWasmUrl u s) = trace s"
  by (simp_all add: setWasmUrl_def)

lemma loadRuntime_fields [simp]:
  "runtime (loadRuntime s) = runtime s"
  "isLoading (loadRuntime s) = isLoading s"
  "callBackQueue (loadRuntime s) = callBackQueue s"
  "wasmURL (loadRuntime s) = wasmURL s"
  "pending (loadRuntime s) = Suc (pending s)"
  "failing (loadRuntime s) = failing s"
  "promises (loadRuntime s) = promises s"
  "trace (loadRuntime s) = trace s @ [Init (wasmURL s)]"
  by (simp_all add: loadRuntime_def locateFile_def)

lemma resolvePromise_fields [simp]:
  "runtime (resolvePromise p v s) = runtime s"
  "isLoading (resolvePromise p v s) = isLoading s"
  "callBackQueue (resolvePromise p v s) = callBackQueue s"
  "wasmURL (resolvePromise p v s) = wasmURL s"
  "pending (resolvePromise p v s) = pending s"
  "failing (resolvePromise p v s) = failing s"
  "trace (resolvePromise p v s) = trace s"
  "length (promises (resolvePromise p v s)) = length (promises s)"
  by (simp_all add: resolvePromise_def)

lemma inits_simps [simp]:
  "inits [] = []"
  "inits (tr @ tr') = inits tr @ inits tr'"
  "inits (e # tr) = init_of e @ inits tr"
  by (simp_all add: inits_def)

lemma pushes_simps [simp]:
  "pushes [] = []"
  "pushes (tr @ tr') = pushes tr @ pushes tr'"
  "pushes (e # tr) = queued_of e @ pushes tr"
  by (simp_all add: pushes_def)

lemma calls_simps [simp]:
  "calls [] = []"
  "calls (tr @ tr') = calls tr @ calls tr'"
  "calls (e # tr) = invoked_of e @ calls tr"
  by (simp_all add: calls_def)

subsection \<open>Registration and the scripts of closures\<close>

lemma getInstance_not_ready:
  "runtime s = None \<Longrightarrow> isLoading s \<Longrightarrow>
     getInstance c s = (False, log (Queued c) (s\<lparr>callBackQueue := callBackQueue s @ [c]\<rparr>))"
  by (simp add: getInstance.simps)

lemma getInstance_idle:
  "runtime s = None \<Longrightarrow> \<not> isLoading s \<Longrightarrow>
     getInstance c s = (False, log (Queued c)
        ((loadRuntime (s\<lparr>isLoading := True\<rparr>))\<lparr>callBackQueue := callBackQueue s @ [c]\<rparr>))"
  by (simp add: getInstance.simps Let_def)

lemma runtime_kept:
  "runtime (snd (getInstance c s)) = runtime s"
  "runtime (snd (invoke c v s)) = runtime s"
  "runtime (snd (run_body acts s)) = runtime s"
proof (induction c s and c v s and acts s rule: getInstance_invoke_run_body.induct)
  case (1 callback s)
  then show ?case by (auto simp: getInstance.simps Let_def)
qed (auto split: prod.splits bool.splits)

lemma isLoading_kept:
  "isLoading (snd (getInstance c s))"
  "isLoading s \<Longrightarrow> isLoading (snd (invoke c v s))"
  "isLoading s \<Longrightarrow> isLoading (snd (run_body acts s))"
proof (induction c s and c v s and acts s rule: getInstance_invoke_run_body.induct)
  case (1 callback s)
  then show ?case by (auto simp: getInstance.simps Let_def)
qed (auto split: prod.splits bool.splits)

lemma failing_kept:
  "failing (snd (getInstance c s)) = failing s"
  "failing (snd (invoke c v s)) = failing s"
  "failing (snd (run_body acts s)) = failing s"
proof (induction c s and c v s and acts s rule: getInstance_invoke_run_body.induct)
  case (1 callback s)
  then show ?case by (auto simp: getInstance.simps Let_def)
qed (auto split: prod.splits bool.splits)

lemma loading_frame:
  "pending (snd (getInstance c s)) = (if isLoading s then pending s else Suc (pending s)) \<and>
   inits (trace (snd (getInstance c s))) = inits (trace s) @ (if isLoading s then [] else [wasmURL s])"
  "isLoading s \<Longrightarrow> pending (snd (invoke c v s)) = pending s \<and>
     inits (trace (snd (invoke c v s))) = inits (trace s)"
  "isLoading s \<Longrightarrow> pending (snd (run_body acts s)) = pending s \<and>
     inits (trace (snd (run_body acts s))) = inits (trace s)"
proof (induction c s and c v s and acts s rule: getInstance_invoke_run_body.induct)
  case (1 callback s)
  then show ?case by (auto simp: getInstance.simps Let_def)
next
  case (7 cb rest s)
  then show ?case 
    using isLoading_kept(1) [of "UserCallback cb" s]
    by (auto split: prod.splits bool.splits)
qed (auto split: prod.splits bool.splits)

lemma ready_frame:
  "runtime s = Some h \<Longrightarrow>
     callBackQueue (snd (getInstance c s)) = callBackQueue s \<and>
     pushes (trace (snd (getInstance c s))) = pushes (trace s)"
  "runtime s = Some h \<Longrightarrow>
     callBackQueue (snd (invoke c v s)) = callBackQueue s \<and>
     pushes (trace (snd (invoke c v s))) = pushes (trace s)"
  "runtime s = Some h \<Longrightarrow>
     callBackQueue (snd (run_body acts s)) = callBackQueue s \<and>
     pushes (trace (snd (run_body acts s))) = pushes (trace s)"
proof (induction c s and c v s and acts s rule: getInstance_invoke_run_body.induct)
  case (1 callback s)
  then show ?case by (auto simp: getInstance.simps Let_def)
next
  case (7 cb rest s)
  then show ?case 
    using runtime_kept(1) [of "UserCallback cb" s]
    by (auto split: prod.splits bool.splits)
qed (auto split: prod.splits bool.splits)

lemma with_handle_simps [simp]:
  "with_handle h [] = []"
  "with_handle h (c # cs) = (c, Some h) # with_handle h cs"
  "with_handle h (cs @ ds) = with_handle h cs @ with_handle h ds"
  by (simp_all add: with_handle_def)

lemma ready_calls:
  "runtime s = Some h \<Longrightarrow>
     fst (getInstance c s) = (\<not> returns c) \<and>
     calls (trace (snd (getInstance c s))) = calls (trace s) @ with_handle h (fired c)"
  "runtime s = Some h \<Longrightarrow> v = Some h \<Longrightarrow>
     fst (invoke c v s) = (\<not> returns c) \<and>
     calls (trace (snd (invoke c v s))) = calls (trace s) @ with_handle h (fired c)"
  "runtime s = Some h \<Longrightarrow>
     fst (run_body acts s) = (\<not> nothrow acts) \<and>
     calls (trace (snd (run_body acts s))) =
       calls (trace s) @ with_handle h (map UserCallback (fires acts))"
proof (induction c s and c v s and acts s rule: getInstance_invoke_run_body.induct)
  case (1 callback s)
  then show ?case by (auto simp: getInstance.simps Let_def)
next
  case (7 cb rest s)
  obtain n body where cb: "cb = Callback n body" by (cases cb)
  obtain t s' where g: "getInstance (UserCallback cb) s = (t, s')"
    by (cases "getInstance (UserCallback cb) s")
  have r: "runtime s' = Some h"
    using runtime_kept(1) [of "UserCallback cb" s] g "7.prems" by simp
  from "7.IH"(1) [OF "7.prems"] g cb
  have t: "t = (\<not> nothrow body)"
    and c: "calls (trace s') = calls (trace s) @ with_handle h (fired (UserCallback cb))"
    by simp_all
  show ?case
  proof (cases t)
    case True
    with g t c cb show ?thesis by simp
  next
    case False
    with "7.IH"(2) [of t s'] g r
    have "fst (run_body rest s') = (\<not> nothrow rest) \<and>
      calls (trace (snd (run_body rest s'))) =
        calls (trace s') @ with_handle h (map UserCallback (fires rest))"
      by simp
    with False g t c cb show ?thesis by simp
  qed
qed auto

subsection \<open>The drain loop\<close>

lemma drain_Nil: "callBackQueue s = [] \<Longrightarrow> drain s = (False, s)"
  by (simp add: drain.simps)

lemma drain_Cons:
  "callBackQueue s = c # rest \<Longrightarrow> invoke c (runtime s) (s\<lparr>callBackQueue := rest\<rparr>) = (t, s') \<Longrightarrow>
     drain s = (if t then (True, s') else drain s')"
  by (simp add: drain.simps)

lemma drain_ready:
  "runtime s = Some h \<Longrightarrow>
     fst (drain s) = (\<not> list_all returns (callBackQueue s)) \<and>
     runtime (snd (drain s)) = Some h \<and>
     callBackQueue (snd (drain s)) = undrained (callBackQueue s) \<and>
     pushes (trace (snd (drain s))) = pushes (trace s) \<and>
     calls (trace (snd (drain s))) = calls (trace s) @ with_handle h (drained (callBackQueue s))"
proof (induction s rule: drain.induct)
  case (1 s)
  show ?case
  proof (cases "callBackQueue s")
    case Nil
    with "1.prems" show ?thesis by (simp add: drain_Nil)
  next
    case (Cons c rest)
    let ?m = "s\<lparr>callBackQueue := rest\<rparr>"
    obtain t s' where i: "invoke c (runtime s) ?m = (t, s')"
      by (cases "invoke c (runtime s) ?m")
    have m: "runtime ?m = Some h" using "1.prems" by simp
    have r: "runtime s' = Some h"
      using runtime_kept(2) [of c "runtime s" ?m] i m by simp
    have q: "callBackQueue s' = rest" "pushes (trace s') = pushes (trace s)"
      using ready_frame(2) [OF m, of c "runtime s"] i by simp_all
    have c: "t = (\<not> returns c)"
      "calls (trace s') = calls (trace s) @ with_handle h (fired c)"
      using ready_calls(2) [OF m, of "runtime s" c] i "1.prems" by simp_all
    show ?thesis
    proof (cases t)
      case True
      with Cons i r q c show ?thesis by (simp add: drain_Cons)
    next
      case False
      then have f: "t = False" by simp
      from "1.IH" [OF Cons i [symmetric] f r] Cons i q c False
      show ?thesis by (simp add: drain_Cons)
    qed
  qed
qed


lemma drain_loading:
  "isLoading s \<Longrightarrow>
     isLoading (snd (drain s)) \<and> pending (snd (drain s)) = pending s \<and>
     failing (snd (drain s)) = failing s \<and>
     inits (trace (snd (drain s))) = inits (trace s)"
proof (induction s rule: drain.induct)
  case (1 s)
  show ?case
  proof (cases "callBackQueue s")
    case Nil
    with "1.prems" show ?thesis by (simp add: drain_Nil)
  next
    case (Cons c rest)
    let ?m = "s\<lparr>callBackQueue := rest\<rparr>"
    obtain t s' where i: "invoke c (runtime s) ?m = (t, s')"
      by (cases "invoke c (runtime s) ?m")
    have m: "isLoading ?m" using "1.prems" by simp
    have l: "isLoading s'" "pending s' = pending s" "inits (trace s') = inits (trace s)"
      "failing s' = failing s"
      using isLoading_kept(2) [OF m, of c "runtime s"] loading_frame(2) [OF m, of c "runtime s"]
        failing_kept(2) [of c "runtime s" ?m] i
      by simp_all
    show ?thesis
    proof (cases t)
      case True
      with Cons i l show ?thesis by (simp add: drain_Cons)
    next
      case False
      then have f: "t = False" by simp
      from "1.IH" [OF Cons i [symmetric] f l(1)] Cons i l False
      show ?thesis by (simp add: drain_Cons)
    qed
  qed
qed

subsection \<open>Sequences of registrations\<close>

lemma run_append: "run pkg (xs @ ys) s = run pkg ys (run pkg xs s)"
  by (induction xs arbitrary: s) simp_all

lemma run_getInstance_loading:
  "isLoading s \<Longrightarrow>
     isLoading (run pkg (map CallGetInstance cbs) s) \<and>
     pending (run pkg (map CallGetInstance cbs) s) = pending s \<and>
     inits (trace (run pkg (map CallGetInstance cbs) s)) = inits (trace s)"
proof (induction cbs arbitrary: s)
  case Nil
  then show ?case by simp
next
  case (Cons cb cbs)
  let ?s = "snd (getInstance (UserCallback cb) s)"
  have "isLoading ?s" "pending ?s = pending s" "inits (trace ?s) = inits (trace s)"
    using isLoading_kept(1) [of "UserCallback cb" s]
      loading_frame(1) [of "UserCallback cb" s] Cons.prems by simp_all
  with Cons.IH [of ?s] show ?case by simp
qed

lemma fired_hd: "fired c = c # tl (fired c)"
  by (cases c rule: fired.cases) simp_all


lemma getInstance_not_ready_fields:
  assumes "runtime s = None"
  shows "fst (getInstance c s) = False"
    and "runtime (snd (getInstance c s)) = None"
    and "callBackQueue (snd (getInstance c s)) = callBackQueue s @ [c]"
    and "calls (trace (snd (getInstance c s))) = calls (trace s)"
    and "pushes (trace (snd (getInstance c s))) = pushes (trace s) @ [c]"
    and "promises (snd (getInstance c s)) = promises s"
    and "wasmURL (snd (getInstance c s)) = wasmURL s"
  using assms by (simp_all add: getInstance.simps Let_def)

lemma run_getInstance_not_ready:
  "runtime s = None \<Longrightarrow>
     runtime (run pkg (map CallGetInstance cbs) s) = None \<and>
     callBackQueue (run pkg (map CallGetInstance cbs) s) = callBackQueue s @ map UserCallback cbs \<and>
     calls (trace (run pkg (map CallGetInstance cbs) s)) = calls (trace s) \<and>
     pushes (trace (run pkg (map CallGetInstance cbs) s)) = pushes (trace s) @ map UserCallback cbs \<and>
     pending (run pkg (map CallGetInstance cbs) s) =
       (if isLoading s \<or> cbs = [] then pending s else Suc (pending s)) \<and>
     failing (run pkg (map CallGetInstance cbs) s) = failing s"
proof (induction cbs arbitrary: s)
  case Nil
  then show ?case by simp
next
  case (Cons cb cbs)
  let ?s = "snd (getInstance (UserCallback cb) s)"
  have l: "isLoading ?s" by (rule isLoading_kept(1))
  have p: "pending ?s = (if isLoading s then pending s else Suc (pending s))"
    using loading_frame(1) [of "UserCallback cb" s] by simp
  from Cons.IH [of ?s] getInstance_not_ready_fields [OF Cons.prems, of "UserCallback cb"] l p
    failing_kept(1) [of "UserCallback cb" s]
  show ?case by simp
qed

lemma thenHandler_ready:
  "fst (thenHandler rive s) = (\<not> list_all returns (callBackQueue s)) \<and>
   runtime (snd (thenHandler rive s)) = Some rive \<and>
   callBackQueue (snd (thenHandler rive s)) = undrained (callBackQueue s) \<and>
   pushes (trace (snd (thenHandler rive s))) = pushes (trace s) \<and>
   calls (trace (snd (thenHandler rive s))) =
     calls (trace s) @ with_handle rive (drained (callBackQueue s))"
  using drain_ready [of "s\<lparr>runtime := Some rive\<rparr>" rive] by (simp add: thenHandler_def)



subsection \<open>The continuations and the events\<close>

lemma primary_not_backup: "toLowerCase (primaryUrl pkg) \<noteq> backupJsdelivrUrl pkg"
  by (simp add: primaryUrl_def backupJsdelivrUrl_def toLowerCase_def lowerChar_def)

lemma catchHandler_retry:
  "toLowerCase (wasmURL s) \<noteq> backupJsdelivrUrl pkg \<Longrightarrow>
     catchHandler pkg s = loadRuntime (setWasmUrl (backupJsdelivrUrl pkg) (log (Warn (wasmURL s)) s))"
  by (simp add: catchHandler_def)

lemma catchHandler_terminal:
  "toLowerCase (wasmURL s) = backupJsdelivrUrl pkg \<Longrightarrow> catchHandler pkg s = log Error s"
  by (simp add: catchHandler_def)

lemma lowerChar_idem: "lowerChar (lowerChar c) = lowerChar c"
  by (auto simp: lowerChar_def Let_def)

lemma toLowerCase_idem: "toLowerCase (toLowerCase u) = toLowerCase u"
  by (simp add: toLowerCase_def lowerChar_idem)

text \<open>
  The check that ends the retries lower-cases the current URL only. A lower-cased
  string never equals a string that is not its own lower-case form, so with such a
  fallback URL the failure continuation retries whatever the current URL is, and
  every failed load is followed by another one.
\<close>

lemma catchHandler_never_terminal:
  assumes "toLowerCase (backupJsdelivrUrl pkg) \<noteq> backupJsdelivrUrl pkg"
  shows "catchHandler pkg s =
    loadRuntime (setWasmUrl (backupJsdelivrUrl pkg) (log (Warn (wasmURL s)) s))"
proof -
  have "toLowerCase (wasmURL s) \<noteq> backupJsdelivrUrl pkg"
  proof
    assume e: "toLowerCase (wasmURL s) = backupJsdelivrUrl pkg"
    have "toLowerCase (backupJsdelivrUrl pkg) = toLowerCase (toLowerCase (wasmURL s))"
      by (simp only: e)
    also have "\<dots> = toLowerCase (wasmURL s)" by (rule toLowerCase_idem)
    also have "\<dots> = backupJsdelivrUrl pkg" by (rule e)
    finally show False using assms by (simp only: not_True_eq_False simp_thms)
  qed
  then show ?thesis by (rule catchHandler_retry)
qed

lemma retry_storm:
  assumes "toLowerCase (backupJsdelivrUrl pkg) \<noteq> backupJsdelivrUrl pkg"
  shows "0 < pending s \<Longrightarrow>
     inits (trace (run pkg (replicate n LoadFails) s)) =
       inits (trace s) @ replicate n (backupJsdelivrUrl pkg) \<and>
     pending (run pkg (replicate n LoadFails) s) = pending s \<and>
     Error \<notin> set (trace (run pkg (replicate n LoadFails) s)) - set (trace s)"
proof (induction n arbitrary: s)
  case 0
  then show ?case by simp
next
  case (Suc n)
  let ?s = "loadFails pkg s"
  have f: "?s = loadRuntime (setWasmUrl (backupJsdelivrUrl pkg)
      (log (Warn (wasmURL s)) (s\<lparr>pending := pending s - 1\<rparr>)))"
    using Suc.prems catchHandler_never_terminal [OF assms, of "s\<lparr>pending := pending s - 1\<rparr>"]
    by (simp add: loadFails_def)
  have p: "pending ?s = pending s" "inits (trace ?s) = inits (trace s) @ [backupJsdelivrUrl pkg]"
    "set (trace ?s) = set (trace s) \<union> {Warn (wasmURL s), Init (backupJsdelivrUrl pkg)}"
    using Suc.prems by (auto simp: f)
  from Suc.IH [of ?s] p Suc.prems show ?case
    by (auto simp: replicate_append_same)
qed

lemma catchHandler_kept:
  "runtime (catchHandler pkg s) = runtime s"
  "isLoading (catchHandler pkg s) = isLoading s"
  "callBackQueue (catchHandler pkg s) = callBackQueue s"
  "promises (catchHandler pkg s) = promises s"
  "calls (trace (catchHandler pkg s)) = calls (trace s)"
  "pushes (trace (catchHandler pkg s)) = pushes (trace s)"
  "failing (catchHandler pkg s) = failing s"
  by (simp_all add: catchHandler_def)

lemma getInstance_resolver_returns: "fst (getInstance (PromiseResolve p) s) = False"
  by (simp add: getInstance.simps Let_def)

lemma awaitInstance_eq:
  "snd (awaitInstance s) =
     snd (getInstance (PromiseResolve (length (promises s))) (s\<lparr>promises := promises s @ [Pending]\<rparr>))"
  using getInstance_resolver_returns
    [of "length (promises s)" "s\<lparr>promises := promises s @ [Pending]\<rparr>"]
  by (cases "getInstance (PromiseResolve (length (promises s))) (s\<lparr>promises := promises s @ [Pending]\<rparr>)")
    (simp add: awaitInstance_def Let_def)

lemma awaitInstance_kept:
  "runtime (snd (awaitInstance s)) = runtime s"
  "isLoading (snd (awaitInstance s))"
  "pending (snd (awaitInstance s)) = (if isLoading s then pending s else Suc (pending s))"
  "inits (trace (snd (awaitInstance s))) = inits (trace s) @ (if isLoading s then [] else [wasmURL s])"
  "failing (snd (awaitInstance s)) = failing s"
  using failing_kept(1) [of "PromiseResolve (length (promises s))" "s\<lparr>promises := promises s @ [Pending]\<rparr>"]
    runtime_kept(1) [of "PromiseResolve (length (promises s))" "s\<lparr>promises := promises s @ [Pending]\<rparr>"]
    isLoading_kept(1) [of "PromiseResolve (length (promises s))" "s\<lparr>promises := promises s @ [Pending]\<rparr>"]
    loading_frame(1) [of "PromiseResolve (length (promises s))" "s\<lparr>promises := promises s @ [Pending]\<rparr>"]
  by (simp_all add: awaitInstance_eq)

lemma awaitInstance_not_ready:
  assumes "runtime s = None"
  shows "callBackQueue (snd (awaitInstance s)) = callBackQueue s @ [PromiseResolve (length (promises s))]"
    and "calls (trace (snd (awaitInstance s))) = calls (trace s)"
    and "pushes (trace (snd (awaitInstance s))) = pushes (trace s) @ [PromiseResolve (length (promises s))]"
    and "promises (snd (awaitInstance s)) = promises s @ [Pending]"
  using getInstance_not_ready_fields [of "s\<lparr>promises := promises s @ [Pending]\<rparr>"
      "PromiseResolve (length (promises s))"] assms
  by (simp_all add: awaitInstance_eq)

lemma catchHandler_loading:
  "pending (catchHandler pkg s) =
     (if toLowerCase (wasmURL s) \<noteq> backupJsdelivrUrl pkg then Suc (pending s) else pending s)"
  "inits (trace (catchHandler pkg s)) = inits (trace s) @
     (if toLowerCase (wasmURL s) \<noteq> backupJsdelivrUrl pkg then [backupJsdelivrUrl pkg] else [])"
  by (simp_all add: catchHandler_def)

lemma thenHandler_loading:
  "isLoading s \<Longrightarrow> isLoading (snd (thenHandler rive s)) \<and>
     pending (snd (thenHandler rive s)) = pending s \<and>
     failing (snd (thenHandler rive s)) = failing s \<and>
     inits (trace (snd (thenHandler rive s))) = inits (trace s)"
  using drain_loading [of "s\<lparr>runtime := Some rive\<rparr>"] by (simp add: thenHandler_def)

lemma loadSucceeds_isLoading: "isLoading s \<Longrightarrow> isLoading (loadSucceeds rive s)"
  using thenHandler_loading [of "s\<lparr>pending := pending s - 1\<rparr>" rive]
  by (cases "thenHandler rive (s\<lparr>pending := pending s - 1\<rparr>)")
    (auto simp: loadSucceeds_def split: bool.splits)

lemma step_isLoading: "isLoading s \<Longrightarrow> isLoading (step pkg x s)"
  by (cases x)
    (simp_all add: isLoading_kept(1) awaitInstance_kept(2) loadSucceeds_isLoading
      loadFails_def catchRuns_def catchHandler_kept)

text \<open>No load in flight and loading started: nothing starts a load any more.\<close>

lemma step_quiescent:
  "isLoading s \<Longrightarrow> pending s = 0 \<Longrightarrow> failing s = 0 \<Longrightarrow>
     isLoading (step pkg x s) \<and> pending (step pkg x s) = 0 \<and> failing (step pkg x s) = 0 \<and>
     runtime (step pkg x s) = runtime s \<and> inits (trace (step pkg x s)) = inits (trace s)"
proof (cases x)
  case (CallGetInstance cb)
  assume "isLoading s" "pending s = 0" "failing s = 0"
  with CallGetInstance show ?thesis
    using isLoading_kept(1) [of "UserCallback cb" s] loading_frame(1) [of "UserCallback cb" s]
      runtime_kept(1) [of "UserCallback cb" s] failing_kept(1) [of "UserCallback cb" s] by simp
next
  case CallAwaitInstance
  assume "isLoading s" "pending s = 0" "failing s = 0"
  with CallAwaitInstance show ?thesis by (simp add: awaitInstance_kept)
qed (simp_all add: loadSucceeds_def loadFails_def catchRuns_def)

lemma run_quiescent:
  "isLoading s \<Longrightarrow> pending s = 0 \<Longrightarrow> failing s = 0 \<Longrightarrow>
     isLoading (run pkg ops s) \<and> pending (run pkg ops s) = 0 \<and> failing (run pkg ops s) = 0 \<and>
     runtime (run pkg ops s) = runtime s \<and> inits (trace (run pkg ops s)) = inits (trace s)"
proof (induction ops arbitrary: s)
  case Nil
  then show ?case by simp
next
  case (Cons x ops)
  from step_quiescent [OF Cons.prems, of pkg x] Cons.IH [of "step pkg x s"]
  show ?case by simp
qed

lemma step_silent:
  "isLoading s \<Longrightarrow> pending s = 0 \<Longrightarrow> failing s = 0 \<Longrightarrow> runtime s = None \<Longrightarrow>
     calls (trace (step pkg x s)) = calls (trace s) \<and>
     (\<exists>new. pushes (trace (step pkg x s)) = pushes (trace s) @ new \<and>
            callBackQueue (step pkg x s) = callBackQueue s @ new)"
proof (cases x)
  case (CallGetInstance cb)
  assume "runtime s = None"
  with CallGetInstance show ?thesis
    using getInstance_not_ready_fields [of s "UserCallback cb"] by simp
next
  case CallAwaitInstance
  assume "runtime s = None"
  with CallAwaitInstance show ?thesis by (simp add: awaitInstance_not_ready)
qed (simp_all add: loadSucceeds_def loadFails_def catchRuns_def)

lemma run_silent:
  "isLoading s \<Longrightarrow> pending s = 0 \<Longrightarrow> failing s = 0 \<Longrightarrow> runtime s = None \<Longrightarrow>
     calls (trace (run pkg ops s)) = calls (trace s) \<and>
     (\<exists>new. pushes (trace (run pkg ops s)) = pushes (trace s) @ new \<and>
            callBackQueue (run pkg ops s) = callBackQueue s @ new)"
proof (induction ops arbitrary: s)
  case Nil
  then show ?case by simp
next
  case (Cons x ops)
  let ?s = "step pkg x s"
  from step_quiescent [OF Cons.prems(1,2,3), of pkg x] Cons.prems(4)
  have q: "isLoading ?s" "pending ?s = 0" "failing ?s = 0" "runtime ?s = None" by simp_all
  from step_silent [OF Cons.prems, of pkg x] obtain n1 where
    s1: "calls (trace ?s) = calls (trace s)" "pushes (trace ?s) = pushes (trace s) @ n1"
      "callBackQueue ?s = callBackQueue s @ n1" by blast
  from Cons.IH [OF q] obtain n2 where
    s2: "calls (trace (run pkg ops ?s)) = calls (trace ?s)"
      "pushes (trace (run pkg ops ?s)) = pushes (trace ?s) @ n2"
      "callBackQueue (run pkg ops ?s) = callBackQueue ?s @ n2" by blast
  from s1 s2 show ?case by simp
qed

lemma run_getInstance_url:
  "runtime s = None \<Longrightarrow> wasmURL (run pkg (map CallGetInstance cbs) s) = wasmURL s"
proof (induction cbs arbitrary: s)
  case Nil
  then show ?case by simp
next
  case (Cons cb cbs)
  from Cons.IH [of "snd (getInstance (UserCallback cb) s)"]
    getInstance_not_ready_fields [OF Cons.prems, of "UserCallback cb"]
  show ?case by simp
qed

lemma registered_initial:
  assumes "cbs \<noteq> []"
  shows "runtime (run pkg (map CallGetInstance cbs) (initial pkg)) = None"
    and "isLoading (run pkg (map CallGetInstance cbs) (initial pkg))"
    and "pending (run pkg (map CallGetInstance cbs) (initial pkg)) = 1"
    and "wasmURL (run pkg (map CallGetInstance cbs) (initial pkg)) = primaryUrl pkg"
    and "inits (trace (run pkg (map CallGetInstance cbs) (initial pkg))) = [primaryUrl pkg]"
    and "failing (run pkg (map CallGetInstance cbs) (initial pkg)) = 0"
proof -
  have i: "runtime (initial pkg) = None" by (simp add: initial_def)
  obtain c cs where cbs: "cbs = c # cs" using assms by (cases cbs) auto
  let ?s = "snd (getInstance (UserCallback c) (initial pkg))"
  have f: "isLoading ?s" "inits (trace ?s) = [primaryUrl pkg]"
    using isLoading_kept(1) [of "UserCallback c" "initial pkg"]
      loading_frame(1) [of "UserCallback c" "initial pkg"]
    by (simp_all add: initial_def)
  show "runtime (run pkg (map CallGetInstance cbs) (initial pkg)) = None"
    "pending (run pkg (map CallGetInstance cbs) (initial pkg)) = 1"
    "failing (run pkg (map CallGetInstance cbs) (initial pkg)) = 0"
    using run_getInstance_not_ready [OF i, of pkg cbs] assms by (simp_all add: initial_def)
  show "wasmURL (run pkg (map CallGetInstance cbs) (initial pkg)) = primaryUrl pkg"
    using run_getInstance_url [OF i, of pkg cbs] by (simp add: initial_def)
  show "isLoading (run pkg (map CallGetInstance cbs) (initial pkg))"
    "inits (trace (run pkg (map CallGetInstance cbs) (initial pkg))) = [primaryUrl pkg]"
    using run_getInstance_loading [OF f(1), of pkg cs] f cbs by simp_all
qed

text \<open>
  With a fallback URL that is its own lower-case form, and no other event between
  the two failures, the second failure is the terminal one.
\<close>

lemma lower_case_fallback_once:
  "toLowerCase (backupJsdelivrUrl pkg) = backupJsdelivrUrl pkg \<Longrightarrow> cbs \<noteq> [] \<Longrightarrow>
     trace (run pkg [LoadFails] (run pkg (map CallGetInstance cbs) (initial pkg))) =
       trace (run pkg (map CallGetInstance cbs) (initial pkg)) @
         [Warn (primaryUrl pkg), Init (backupJsdelivrUrl pkg)] \<and>
     wasmURL (run pkg [LoadFails] (run pkg (map CallGetInstance cbs) (initial pkg))) =
       backupJsdelivrUrl pkg \<and>
     pending (run pkg [LoadFails] (run pkg (map CallGetInstance cbs) (initial pkg))) = 1 \<and>
     trace (run pkg [LoadFails, LoadFails] (run pkg (map CallGetInstance cbs) (initial pkg))) =
       trace (run pkg (map CallGetInstance cbs) (initial pkg)) @
         [Warn (primaryUrl pkg), Init (backupJsdelivrUrl pkg), Error] \<and>
     pending (run pkg [LoadFails, LoadFails] (run pkg (map CallGetInstance cbs) (initial pkg))) = 0 \<and>
     inits (trace (run pkg ([LoadFails, LoadFails] @ ops)
         (run pkg (map CallGetInstance cbs) (initial pkg)))) =
       [primaryUrl pkg, backupJsdelivrUrl pkg]"
proof -
  assume lower: "toLowerCase (backupJsdelivrUrl pkg) = backupJsdelivrUrl pkg" and ne: "cbs \<noteq> []"
  let ?s = "run pkg (map CallGetInstance cbs) (initial pkg)"
  note r = registered_initial [OF ne, of pkg]
  let ?m = "?s\<lparr>pending := pending ?s - 1\<rparr>"
  have one: "loadFails pkg ?s =
      loadRuntime (setWasmUrl (backupJsdelivrUrl pkg) (log (Warn (primaryUrl pkg)) ?m))"
    using r primary_not_backup [of pkg] catchHandler_retry [of ?m pkg]
    by (simp add: loadFails_def)
  let ?s1 = "loadFails pkg ?s"
  have f1: "trace ?s1 = trace ?s @ [Warn (primaryUrl pkg), Init (backupJsdelivrUrl pkg)]"
    "wasmURL ?s1 = backupJsdelivrUrl pkg" "pending ?s1 = 1" "isLoading ?s1" "failing ?s1 = 0"
    using r by (simp_all add: one)
  have two: "loadFails pkg ?s1 = log Error (?s1\<lparr>pending := pending ?s1 - 1\<rparr>)"
    using f1 lower catchHandler_terminal [of "?s1\<lparr>pending := pending ?s1 - 1\<rparr>" pkg]
    by (simp add: loadFails_def)
  let ?s2 = "loadFails pkg ?s1"
  have f2: "trace ?s2 = trace ?s @ [Warn (primaryUrl pkg), Init (backupJsdelivrUrl pkg), Error]"
    "pending ?s2 = 0" "isLoading ?s2" "failing ?s2 = 0"
    using f1 by (simp_all add: two)
  have "inits (trace (run pkg ops ?s2)) = inits (trace ?s2)"
    using run_quiescent [OF f2(3) f2(2) f2(4), of pkg ops] by simp
  then have f3: "inits (trace (run pkg ops ?s2)) = [primaryUrl pkg, backupJsdelivrUrl pkg]"
    using f2(1) r(5) by simp
  from f1 f2 f3 show ?thesis by simp
qed

subsection \<open>Two concrete runs\<close>

lemma terminal_example:
  "isLoading (run example_pkg [CallGetInstance (Callback 1 []), LoadFails, LoadFails]
       (initial example_pkg))"
  "runtime (run example_pkg [CallGetInstance (Callback 1 []), LoadFails, LoadFails]
       (initial example_pkg)) = None"
  "pending (run example_pkg [CallGetInstance (Callback 1 []), LoadFails, LoadFails]
       (initial example_pkg)) = 0"
  "callBackQueue (run example_pkg [CallGetInstance (Callback 1 []), LoadFails, LoadFails]
       (initial example_pkg)) = [UserCallback (Callback 1 [])]"
  "calls (trace (run example_pkg [CallGetInstance (Callback 1 []), LoadFails, LoadFails]
       (initial example_pkg))) = []"
  "failing (run example_pkg [CallGetInstance (Callback 1 []), LoadFails, LoadFails]
       (initial example_pkg)) = 0"
  by code_simp+


subsection \<open>The promises of awaitInstance\<close>

lemma answers_simps [simp]:
  "answers p [] = []"
  "answers p (tr @ tr') = answers p tr @ answers p tr'"
  "answers p (e # tr) = answer_of p e @ answers p tr"
  by (simp_all add: answers_def)





























section \<open>The claims\<close>

text \<open>
  Claim C1 (single flight). Whatever number of \<^verbatim>\<open>getInstance\<close> calls is made
  from the initial state before any load settles, the initialization entry point
  has been called exactly once, for the primary URL, and exactly one load is in
  flight. More generally, in any state in which loading has started, a further
  \<^verbatim>\<open>getInstance\<close> call neither calls the entry point nor adds a load in flight.
\<close>

theorem single_flight:
  "cbs \<noteq> [] \<Longrightarrow>
     inits (trace (run pkg (map CallGetInstance cbs) (initial pkg))) = [primaryUrl pkg] \<and>
     pending (run pkg (map CallGetInstance cbs) (initial pkg)) = 1 \<and>
     (isLoading s \<longrightarrow>
        inits (trace (step pkg (CallGetInstance cb) s)) = inits (trace s) \<and>
        pending (step pkg (CallGetInstance cb) s) = pending s)"
proof -
  assume "cbs \<noteq> []"
  then obtain c cs where cbs: "cbs = c # cs" by (cases cbs) auto
  let ?s = "snd (getInstance (UserCallback c) (initial pkg))"
  have first: "isLoading ?s" "pending ?s = 1" "inits (trace ?s) = [primaryUrl pkg]"
    using isLoading_kept(1) [of "UserCallback c" "initial pkg"]
      loading_frame(1) [of "UserCallback c" "initial pkg"]
    by (simp_all add: initial_def)
  have "inits (trace (run pkg (map CallGetInstance cbs) (initial pkg))) = [primaryUrl pkg]"
    "pending (run pkg (map CallGetInstance cbs) (initial pkg)) = 1"
    using run_getInstance_loading [OF first(1), of pkg cs] first cbs by simp_all
  moreover have "isLoading s \<longrightarrow>
        inits (trace (step pkg (CallGetInstance cb) s)) = inits (trace s) \<and>
        pending (step pkg (CallGetInstance cb) s) = pending s"
    using loading_frame(1) [of "UserCallback cb" s] by simp
  ultimately show ?thesis by simp
qed

theorem single_flight_witness:
  "[Callback 1 [], Callback 2 [], Callback 3 []] \<noteq> [] \<and>
   inits (trace (run example_pkg
       (map CallGetInstance [Callback 1 [], Callback 2 [], Callback 3 []]) (initial example_pkg)))
     = [''https://unpkg.com/@rive-app/canvas@2.7.0/rive.wasm''] \<and>
   pending (run example_pkg
       (map CallGetInstance [Callback 1 [], Callback 2 [], Callback 3 []]) (initial example_pkg)) = 1 \<and>
   isLoading (step example_pkg (CallGetInstance (Callback 1 [])) (initial example_pkg)) \<and>
   inits (trace (step example_pkg (CallGetInstance (Callback 2 []))
       (step example_pkg (CallGetInstance (Callback 1 [])) (initial example_pkg))))
     = inits (trace (step example_pkg (CallGetInstance (Callback 1 [])) (initial example_pkg))) \<and>
   pending (step example_pkg (CallGetInstance (Callback 2 []))
       (step example_pkg (CallGetInstance (Callback 1 [])) (initial example_pkg)))
     = pending (step example_pkg (CallGetInstance (Callback 1 [])) (initial example_pkg))"
  using single_flight [of "[Callback 1 [], Callback 2 [], Callback 3 []]" example_pkg
      "step example_pkg (CallGetInstance (Callback 1 [])) (initial example_pkg)" "Callback 2 []"]
    isLoading_kept(1) [of "UserCallback (Callback 1 [])" "initial example_pkg"]
  by (simp add: primaryUrl_def example_pkg_def)




text \<open>
  Claim C3 (fallback once). The claim: when the load from the primary URL fails,
  the loader retries exactly once, from the fallback URL, and when that load fails
  too it reports the error and makes no third attempt. The code departs from it for
  a package whose fallback URL has an upper-case letter, here through the version
  \<^verbatim>\<open>2.7.0-RC1\<close>. The check that ends the retries lower-cases the current URL and
  compares it with the fallback URL as computed, so it does not find the fallback
  URL equal to itself: after the second failure the entry point has been called a
  third time, a load is in flight again and no error has been reported, and after
  the third failure it has been called a fourth time.
\<close>

theorem fallback_once_failing_input:
  "inits (trace (run candidate_pkg [CallGetInstance (Callback 1 []), LoadFails, LoadFails]
       (initial candidate_pkg))) =
     [''https://unpkg.com/@rive-app/canvas@2.7.0-RC1/rive.wasm'',
      ''https://cdn.jsdelivr.net/npm/@rive-app/canvas@2.7.0-RC1/rive_fallback.wasm'',
      ''https://cdn.jsdelivr.net/npm/@rive-app/canvas@2.7.0-RC1/rive_fallback.wasm''] \<and>
   pending (run candidate_pkg [CallGetInstance (Callback 1 []), LoadFails, LoadFails]
       (initial candidate_pkg)) = 1 \<and>
   Error \<notin> set (trace (run candidate_pkg [CallGetInstance (Callback 1 []), LoadFails, LoadFails]
       (initial candidate_pkg))) \<and>
   inits (trace (run candidate_pkg
       [CallGetInstance (Callback 1 []), LoadFails, LoadFails, LoadFails]
       (initial candidate_pkg))) =
     [''https://unpkg.com/@rive-app/canvas@2.7.0-RC1/rive.wasm'',
      ''https://cdn.jsdelivr.net/npm/@rive-app/canvas@2.7.0-RC1/rive_fallback.wasm'',
      ''https://cdn.jsdelivr.net/npm/@rive-app/canvas@2.7.0-RC1/rive_fallback.wasm'',
      ''https://cdn.jsdelivr.net/npm/@rive-app/canvas@2.7.0-RC1/rive_fallback.wasm'']"
  by code_simp

text \<open>
  Claim C4 (case-insensitive comparison). The claim: the check that ends the
  retries compares the lower-cased forms of the current URL and of the fallback
  URL, so that two URLs that differ only in letter case are found equal. The code
  lower-cases the current URL only. For the package with the version
  \<^verbatim>\<open>2.7.0-RC1\<close>, whether the current URL is the fallback URL in lower case or the
  fallback URL itself, it has the same lower-cased form as the fallback URL, and
  yet the check finds the two different: the failure continuation does not report
  the terminal failure and calls the entry point again.
\<close>

theorem fallback_comparison_failing_input:
  "toLowerCase ''https://cdn.jsdelivr.net/npm/@rive-app/canvas@2.7.0-rc1/rive_fallback.wasm''
     = toLowerCase (backupJsdelivrUrl candidate_pkg) \<and>
   catchHandler candidate_pkg ((initial candidate_pkg)\<lparr>wasmURL :=
       ''https://cdn.jsdelivr.net/npm/@rive-app/canvas@2.7.0-rc1/rive_fallback.wasm''\<rparr>)
     \<noteq> log Error ((initial candidate_pkg)\<lparr>wasmURL :=
       ''https://cdn.jsdelivr.net/npm/@rive-app/canvas@2.7.0-rc1/rive_fallback.wasm''\<rparr>) \<and>
   inits (trace (catchHandler candidate_pkg ((initial candidate_pkg)\<lparr>wasmURL :=
       ''https://cdn.jsdelivr.net/npm/@rive-app/canvas@2.7.0-rc1/rive_fallback.wasm''\<rparr>)))
     = [''https://cdn.jsdelivr.net/npm/@rive-app/canvas@2.7.0-RC1/rive_fallback.wasm''] \<and>
   catchHandler candidate_pkg
       ((initial candidate_pkg)\<lparr>wasmURL := backupJsdelivrUrl candidate_pkg\<rparr>)
     \<noteq> log Error ((initial candidate_pkg)\<lparr>wasmURL := backupJsdelivrUrl candidate_pkg\<rparr>) \<and>
   inits (trace (catchHandler candidate_pkg
       ((initial candidate_pkg)\<lparr>wasmURL := backupJsdelivrUrl candidate_pkg\<rparr>)))
     = [''https://cdn.jsdelivr.net/npm/@rive-app/canvas@2.7.0-RC1/rive_fallback.wasm'']"
  by code_simp

text \<open>
  Claim C5 (post-ready immediacy). In every state in which a handle is stored, a
  \<^verbatim>\<open>getInstance\<close> call calls the supplied closure inside that very call, with the
  stored handle, before anything else the call does; the closures that this closure
  registers in turn are called the same way. Nothing is pushed on the queue, and the
  queue and the stored handle are what they were.
\<close>

theorem post_ready_immediacy:
  "runtime s = Some h \<Longrightarrow>
     callBackQueue (snd (getInstance c s)) = callBackQueue s \<and>
     pushes (trace (snd (getInstance c s))) = pushes (trace s) \<and>
     calls (trace (snd (getInstance c s))) =
       calls (trace s) @ (c, Some h) # with_handle h (tl (fired c)) \<and>
     runtime (snd (getInstance c s)) = Some h"
  using ready_frame(1) [of s h c] ready_calls(1) [of s h c] runtime_kept(1) [of c s]
    fired_hd [of c] with_handle_simps(2) [of h c "tl (fired c)"]
  by simp

theorem post_ready_immediacy_witness:
  "runtime (run example_pkg [CallGetInstance (Callback 1 []), LoadSucceeds 7] (initial example_pkg))
     = Some 7 \<and>
   callBackQueue (snd (getInstance (UserCallback (Callback 2 [GetInstance (Callback 3 [])]))
      (run example_pkg [CallGetInstance (Callback 1 []), LoadSucceeds 7] (initial example_pkg))))
     = [] \<and>
   pushes (trace (snd (getInstance (UserCallback (Callback 2 [GetInstance (Callback 3 [])]))
      (run example_pkg [CallGetInstance (Callback 1 []), LoadSucceeds 7] (initial example_pkg)))))
     = [UserCallback (Callback 1 [])] \<and>
   calls (trace (snd (getInstance (UserCallback (Callback 2 [GetInstance (Callback 3 [])]))
      (run example_pkg [CallGetInstance (Callback 1 []), LoadSucceeds 7] (initial example_pkg)))))
     = [(UserCallback (Callback 1 []), Some 7),
        (UserCallback (Callback 2 [GetInstance (Callback 3 [])]), Some 7),
        (UserCallback (Callback 3 []), Some 7)]"
proof -
  let ?s = "run example_pkg [CallGetInstance (Callback 1 []), LoadSucceeds 7] (initial example_pkg)"
  have s: "runtime ?s = Some 7" "callBackQueue ?s = []"
    "pushes (trace ?s) = [UserCallback (Callback 1 [])]"
    "calls (trace ?s) = [(UserCallback (Callback 1 []), Some 7)]"
    by (simp_all add: initial_def getInstance.simps Let_def loadSucceeds_def thenHandler_def
        drain.simps)
  from post_ready_immediacy [OF s(1), of "UserCallback (Callback 2 [GetInstance (Callback 3 [])])"] s
  show ?thesis by simp
qed

text \<open>
  Claim C6 (no automatic retry). No event resets \<^verbatim>\<open>isLoading\<close>. After a terminal
  failure (loading has started, no handle is stored, no load is in flight and no
  chain is failing), whatever events follow: the flag stays set, no handle is
  stored, the entry point is not called again, no closure is called (so the
  closures queued before the failure never fire), the queue only grows by what is
  pushed, and each further \<^verbatim>\<open>getInstance\<close> call does nothing but push its closure.
\<close>

theorem no_automatic_retry:
  "(isLoading s \<longrightarrow> isLoading (step pkg x s)) \<and>
   (isLoading s \<and> runtime s = None \<and> pending s = 0 \<and> failing s = 0 \<longrightarrow>
      isLoading (run pkg ops s) \<and> runtime (run pkg ops s) = None \<and> pending (run pkg ops s) = 0 \<and>
      inits (trace (run pkg ops s)) = inits (trace s) \<and>
      calls (trace (run pkg ops s)) = calls (trace s) \<and>
      (\<exists>new. pushes (trace (run pkg ops s)) = pushes (trace s) @ new \<and>
             callBackQueue (run pkg ops s) = callBackQueue s @ new) \<and>
      getInstance c (run pkg ops s) =
        (False, log (Queued c)
           ((run pkg ops s)\<lparr>callBackQueue := callBackQueue (run pkg ops s) @ [c]\<rparr>)))"
proof (intro conjI impI)
  assume "isLoading s"
  then show "isLoading (step pkg x s)" by (rule step_isLoading)
next
  assume a: "isLoading s \<and> runtime s = None \<and> pending s = 0 \<and> failing s = 0"
  then have q: "isLoading (run pkg ops s)" "runtime (run pkg ops s) = None"
    "pending (run pkg ops s) = 0" "inits (trace (run pkg ops s)) = inits (trace s)"
    using run_quiescent [of s pkg ops] by simp_all
  from q show "isLoading (run pkg ops s)" "runtime (run pkg ops s) = None"
    "pending (run pkg ops s) = 0" "inits (trace (run pkg ops s)) = inits (trace s)"
    by simp_all
  from a show "calls (trace (run pkg ops s)) = calls (trace s)"
    "\<exists>new. pushes (trace (run pkg ops s)) = pushes (trace s) @ new \<and>
           callBackQueue (run pkg ops s) = callBackQueue s @ new"
    using run_silent [of s pkg ops] by simp_all
  from q show "getInstance c (run pkg ops s) =
        (False, log (Queued c)
           ((run pkg ops s)\<lparr>callBackQueue := callBackQueue (run pkg ops s) @ [c]\<rparr>))"
    by (simp add: getInstance_not_ready)
qed

theorem no_automatic_retry_witness:
  "isLoading (run example_pkg [CallGetInstance (Callback 1 []), LoadFails, LoadFails]
       (initial example_pkg)) \<and>
   runtime (run example_pkg [CallGetInstance (Callback 1 []), LoadFails, LoadFails]
       (initial example_pkg)) = None \<and>
   pending (run example_pkg [CallGetInstance (Callback 1 []), LoadFails, LoadFails]
       (initial example_pkg)) = 0 \<and>
   failing (run example_pkg [CallGetInstance (Callback 1 []), LoadFails, LoadFails]
       (initial example_pkg)) = 0 \<and>
   isLoading (step example_pkg LoadFails
     (run example_pkg [CallGetInstance (Callback 1 []), LoadFails, LoadFails]
       (initial example_pkg))) \<and>
   calls (trace (run example_pkg
       [CallGetInstance (Callback 2 []), CallSetWasmUrl ''https://example.com/custom.wasm'',
        CallGetInstance (Callback 3 []), LoadSucceeds 7]
     (run example_pkg [CallGetInstance (Callback 1 []), LoadFails, LoadFails]
       (initial example_pkg)))) = [] \<and>
   inits (trace (run example_pkg
       [CallGetInstance (Callback 2 []), CallSetWasmUrl ''https://example.com/custom.wasm'',
        CallGetInstance (Callback 3 []), LoadSucceeds 7]
     (run example_pkg [CallGetInstance (Callback 1 []), LoadFails, LoadFails]
       (initial example_pkg)))) =
   inits (trace (run example_pkg [CallGetInstance (Callback 1 []), LoadFails, LoadFails]
       (initial example_pkg)))"
  using no_automatic_retry [of
      "run example_pkg [CallGetInstance (Callback 1 []), LoadFails, LoadFails] (initial example_pkg)"
      example_pkg LoadFails
      "[CallGetInstance (Callback 2 []), CallSetWasmUrl ''https://example.com/custom.wasm'',
        CallGetInstance (Callback 3 []), LoadSucceeds 7]"
      "UserCallback (Callback 4 [])"]
    terminal_example
  by simp






text \<open>
  Claim C9 (URL override). When \<^verbatim>\<open>setWasmUrl(u)\<close> is the last of any number of
  \<^verbatim>\<open>setWasmUrl\<close> calls made before the first load attempt, the load that the next
  \<^verbatim>\<open>getInstance\<close> starts calls the entry point with a \<^verbatim>\<open>locateFile\<close> that yields
  exactly \<open>u\<close>, at the call and in the state the call leaves.
\<close>

theorem url_override:
  "inits (trace (run pkg (map CallSetWasmUrl us @ [CallSetWasmUrl u, CallGetInstance cb])
       (initial pkg))) = [u] \<and>
   locateFile (run pkg (map CallSetWasmUrl us @ [CallSetWasmUrl u, CallGetInstance cb])
       (initial pkg)) = u"
proof -
  have pre: "\<And>s. runtime s = None \<Longrightarrow> \<not> isLoading s \<Longrightarrow> trace s = [] \<Longrightarrow>
      runtime (run pkg (map CallSetWasmUrl us) s) = None \<and>
      \<not> isLoading (run pkg (map CallSetWasmUrl us) s) \<and>
      trace (run pkg (map CallSetWasmUrl us) s) = []"
    by (induction us) simp_all
  let ?s = "run pkg (map CallSetWasmUrl us) (initial pkg)"
  have "runtime ?s = None" "\<not> isLoading ?s" "trace ?s = []"
    using pre [of "initial pkg"] by (simp_all add: initial_def)
  then show ?thesis
    by (simp add: run_append getInstance_idle locateFile_def)
qed

theorem url_override_example:
  "inits (trace (run example_pkg
       [CallSetWasmUrl ''https://example.com/custom.wasm'', CallGetInstance (Callback 1 [])]
       (initial example_pkg))) = [''https://example.com/custom.wasm''] \<and>
   locateFile (run example_pkg
       [CallSetWasmUrl ''https://example.com/custom.wasm'', CallGetInstance (Callback 1 [])]
       (initial example_pkg)) = ''https://example.com/custom.wasm''"
  using url_override [of example_pkg "[]" "''https://example.com/custom.wasm''" "Callback 1 []"]
  by simp

text \<open>
  Claim C10 (the handle is stored before the drain). The success continuation
  stores the handle first, so every closure called during the drain receives that
  handle, and nothing is pushed on the queue while the drain runs: a closure that a
  draining closure registers through \<^verbatim>\<open>getInstance\<close> is called at once, right after
  the closure that registered it started and before the rest of that closure's
  script and of the queue. The last equation spells that order out for a queue
  whose first closure starts by registering another one.
\<close>

theorem drain_handle_stored:
  "runtime (snd (thenHandler rive s)) = Some rive \<and>
   pushes (trace (snd (thenHandler rive s))) = pushes (trace s) \<and>
   calls (trace (snd (thenHandler rive s))) =
     calls (trace s) @ with_handle rive (drained (callBackQueue s)) \<and>
   callBackQueue (snd (thenHandler rive s)) = undrained (callBackQueue s) \<and>
   drained (UserCallback (Callback n (GetInstance (Callback m body) # acts)) # q) =
     UserCallback (Callback n (GetInstance (Callback m body) # acts)) #
     UserCallback (Callback m body) #
     map UserCallback (fires body) @
     (if nothrow body
      then map UserCallback (fires acts) @ (if nothrow acts then drained q else [])
      else [])"
  using thenHandler_ready [of rive s] by simp

theorem drain_handle_stored_example:
  "calls (trace (snd (thenHandler 7
      ((initial example_pkg)\<lparr>callBackQueue :=
          [UserCallback (Callback 1 [GetInstance (Callback 2 [])]), UserCallback (Callback 3 [])]\<rparr>))))
     = [(UserCallback (Callback 1 [GetInstance (Callback 2 [])]), Some 7),
        (UserCallback (Callback 2 []), Some 7),
        (UserCallback (Callback 3 []), Some 7)] \<and>
   pushes (trace (snd (thenHandler 7
      ((initial example_pkg)\<lparr>callBackQueue :=
          [UserCallback (Callback 1 [GetInstance (Callback 2 [])]), UserCallback (Callback 3 [])]\<rparr>))))
     = []"
  using drain_handle_stored [of 7 "(initial example_pkg)\<lparr>callBackQueue :=
          [UserCallback (Callback 1 [GetInstance (Callback 2 [])]), UserCallback (Callback 3 [])]\<rparr>"]
  by (simp add: initial_def)

end
